theory Spec2Isabelle
  imports
    Main
    "HOL-Library.Sublist"
    "HOL-Library.List_Lexorder"
    "HOL-Library.Char_ord"
    "HOL-Library.Option_ord"
begin

section \<open>Reddit keyword alert: the poll, dedupe, match, notify cycle\<close>

text \<open>
  A shallow embedding of \<^verbatim>\<open>reddit_monitor.py\<close>. Every Python function keeps its name.
  Mutation of the seen sets, of the files and of the network is explicit state passing;
  an exception that leaves a function is the \<open>Inl\<close> branch of a sum.

  Conventions of the embedding:
  \<^item> a Python \<^verbatim>\<open>str\<close> is a \<open>string\<close> whose characters are the code points 0..255;
  \<^item> a Python \<^verbatim>\<open>set\<close> is a HOL set. Python does not fix the order in which a set is
    iterated (for strings it follows the hash table, whose hashes are salted per
    process), so every place that iterates a set (\<^verbatim>\<open>list(s)\<close>, \<^verbatim>\<open>", ".join(s)\<close>) takes
    the iteration order as a parameter \<open>iter\<close>, a function from the set to the list of
    its elements;
  \<^item> an identifier is \<open>string option\<close>: \<^verbatim>\<open>item_data.get("id")\<close> is \<^verbatim>\<open>None\<close> when the
    key is missing, and \<^verbatim>\<open>None\<close> is then tested, added and saved like any other value.
\<close>

subsection \<open>Exceptions\<close>

datatype error =
    JSONDecodeError      \<comment> \<open>\<^verbatim>\<open>json.load\<close> on a file that does not hold JSON\<close>
  | TimestampOutOfRange  \<comment> \<open>\<^verbatim>\<open>datetime.fromtimestamp\<close> outside the years 1..9999\<close>

subsection \<open>The seen-item store\<close>

type_synonym ident = "string option"

text \<open>
  What a store file holds, as \<^verbatim>\<open>json.load\<close> sees it: text that is not JSON, or a JSON
  array of identifiers (strings and \<^verbatim>\<open>null\<close>), which is all \<^verbatim>\<open>save_seen_items\<close> ever
  writes. A file that does not exist is \<open>None\<close> in the file system.
\<close>

datatype stored = Unparseable | IdArray "ident list"

type_synonym files = "string \<rightharpoonup> stored"

definition SEEN_POSTS_FILE :: string where
  "SEEN_POSTS_FILE = ''seen_posts.json''"


text \<open>
  \<^verbatim>\<open>
  def load_seen_items(filename):
      if os.path.exists(filename):
          with open(filename, "r") as f:
              return set(json.load(f))
      return set()
  \<close>
  There is no \<^verbatim>\<open>try\<close>: what \<^verbatim>\<open>json.load\<close> raises leaves the function.
\<close>

definition load_seen_items :: "files \<Rightarrow> string \<Rightarrow> error + ident set" where
  "load_seen_items fs filename =
     (case fs filename of
        None \<Rightarrow> Inr {}
      | Some Unparseable \<Rightarrow> Inl JSONDecodeError
      | Some (IdArray xs) \<Rightarrow> Inr (set xs))"

text \<open>
  \<^verbatim>\<open>
  def save_seen_items(seen_items, filename):
      """Save seen item IDs to file (keep only last 5000 to prevent file bloat)"""
      seen_list = list(seen_items)
      if len(seen_list) > 5000:
          seen_list = seen_list[-5000:]
      with open(filename, "w") as f:
          json.dump(seen_list, f)
  \<close>
  \<^verbatim>\<open>list(seen_items)\<close> is the iteration order \<open>iter\<close> of the set; the slice keeps the
  last 5000 entries of that list.
\<close>

definition save_seen_items ::
  "(ident set \<Rightarrow> ident list) \<Rightarrow> ident set \<Rightarrow> string \<Rightarrow> files \<Rightarrow> files" where
  "save_seen_items iter seen_items filename fs =
     (let seen_list = iter seen_items;
          seen_list = (if length seen_list > 5000
                       then drop (length seen_list - 5000) seen_list
                       else seen_list)
      in fs(filename \<mapsto> IdArray seen_list))"

text \<open>
  A history for the retention bound: 7000 distinct identifiers, added in the order of the
  list \<open>known_ids\<close> (\<open>add_all\<close> is a loop of \<^verbatim>\<open>seen_items.add\<close>), and an iteration order
  of the resulting set that is not the insertion order (here its reverse).
\<close>

definition fresh_ids :: "nat \<Rightarrow> ident list" where
  "fresh_ids n = map (\<lambda>k. Some (replicate (Suc k) (CHR ''a''))) [0..<n]"

definition known_ids :: "ident list" where
  "known_ids = fresh_ids 7000"

definition add_all :: "ident list \<Rightarrow> ident set \<Rightarrow> ident set" where
  "add_all ids seen_items = fold insert ids seen_items"

definition reversed_iter :: "ident set \<Rightarrow> ident list" where
  "reversed_iter s = rev known_ids"

subsection \<open>Raw items and pages\<close>

record raw_item =
  item_id :: "string option"
  title :: "string option"
  selftext :: "string option"
  body :: "string option"
  link_title :: "string option"
  subreddit :: "string option"
  permalink :: "string option"
  created_utc :: "int option"

text \<open>
  One entry of \<^verbatim>\<open>data["data"]["children"]\<close>, that is the dictionary \<^verbatim>\<open>item["data"]\<close>:
  each field is the value under the key of that name, \<open>None\<close> when the key is missing (the
  code reads every key with \<^verbatim>\<open>.get\<close>). The key \<^verbatim>\<open>id\<close> is the field \<open>item_id\<close>.

  What one pass through the \<^verbatim>\<open>try\<close> block of \<^verbatim>\<open>fetch_multiple_batches\<close> gets from the
  network: \<open>Failed\<close> when anything in the block raises (the transport, the HTTP status,
  the JSON decoding, a missing key), else the page's items and its \<^verbatim>\<open>after\<close> cursor
  (\<open>None\<close> for a missing or \<^verbatim>\<open>null\<close> cursor).
\<close>

datatype page_result = Failed | Page "raw_item list" "string option"

text \<open>
  The network is state of type \<open>'n\<close> that each request reads and changes; a fetcher maps
  the requested URL and the network to the page result and the network afterwards.
\<close>

type_synonym 'n fetcher = "string \<Rightarrow> 'n \<Rightarrow> page_result \<times> 'n"

text \<open>Python's truth value of the cursor: \<^verbatim>\<open>None\<close> and the empty string are false.\<close>

definition truthy :: "string option \<Rightarrow> bool" where
  "truthy after = (case after of None \<Rightarrow> False | Some a \<Rightarrow> a \<noteq> [])"

definition batch_url :: "string \<Rightarrow> string option \<Rightarrow> string" where
  "batch_url url after =
     (case after of
        None \<Rightarrow> url
      | Some a \<Rightarrow> if a \<noteq> [] then url @ ''&after='' @ a else url)"

text \<open>
  \<^verbatim>\<open>
  def fetch_multiple_batches(url, num_batches=10):
      all_items = []
      after = None
      for batch_num in range(num_batches):
          try:
              batch_url = url
              if after:
                  batch_url += f"&after={after}"
              response = requests.get(batch_url, headers=HEADERS, timeout=10)
              response.raise_for_status()
              data = response.json()
              items = data["data"]["children"]
              all_items.extend(items)
              after = data["data"].get("after")
              if not after or len(items) == 0:
                  break
          except Exception as e:
              break
      return all_items
  \<close>
  \<open>batches\<close> is the \<^verbatim>\<open>for\<close> loop with the number of iterations left; \<open>batch_url\<close> is
  the URL of one iteration. \<^verbatim>\<open>range\<close> of a negative number is empty, as \<open>nat\<close> of it is 0.
\<close>

fun batches ::
  "'n fetcher \<Rightarrow> string \<Rightarrow> nat \<Rightarrow> raw_item list \<Rightarrow> string option \<Rightarrow> 'n
     \<Rightarrow> raw_item list \<times> 'n" where
  "batches get url 0 all_items after net = (all_items, net)"
| "batches get url (Suc k) all_items after net =
     (case get (batch_url url after) net of
        (Failed, net') \<Rightarrow> (all_items, net')
      | (Page items after', net') \<Rightarrow>
          if \<not> truthy after' \<or> length items = 0
          then (all_items @ items, net')
          else batches get url k (all_items @ items) after' net')"

definition fetch_multiple_batches ::
  "'n fetcher \<Rightarrow> string \<Rightarrow> int \<Rightarrow> 'n \<Rightarrow> raw_item list \<times> 'n" where
  "fetch_multiple_batches get url num_batches net =
     batches get url (nat num_batches) [] None net"

text \<open>
  To speak about the requests a collection makes, \<open>logged get\<close> is the fetcher \<open>get\<close>
  that also records each request and its result, in order; \<open>fetch_calls\<close> is the record
  of one collection. Logging does not change what is collected (\<open>fetch_calls_is_trace\<close>).
\<close>

type_synonym call_log = "(string \<times> page_result) list"

definition logged :: "'n fetcher \<Rightarrow> ('n \<times> call_log) fetcher" where
  "logged get url s =
     (case s of (net, log) \<Rightarrow>
        case get url net of (r, net') \<Rightarrow> (r, (net', log @ [(url, r)])))"

definition fetch_calls :: "'n fetcher \<Rightarrow> string \<Rightarrow> int \<Rightarrow> 'n \<Rightarrow> call_log" where
  "fetch_calls get url num_batches net =
     snd (snd (fetch_multiple_batches (logged get) url num_batches (net, [])))"

text \<open>
  \<open>continues r\<close>: the loop goes on after the result \<open>r\<close>. \<open>chained url after log\<close>: each
  request of \<open>log\<close> carries the cursor of the result before it, starting from \<open>after\<close>, and
  only the last result may be one that stops the loop.
\<close>

definition continues :: "page_result \<Rightarrow> bool" where
  "continues r = (case r of Failed \<Rightarrow> False | Page items after \<Rightarrow> truthy after \<and> items \<noteq> [])"

fun items_of :: "page_result \<Rightarrow> raw_item list" where
  "items_of Failed = []"
| "items_of (Page items after) = items"

fun cursor_of :: "page_result \<Rightarrow> string option" where
  "cursor_of Failed = None"
| "cursor_of (Page items after) = after"

fun chained :: "string \<Rightarrow> string option \<Rightarrow> call_log \<Rightarrow> bool" where
  "chained url after [] = True"
| "chained url after ((u, r) # rest) =
     (u = batch_url url after \<and> (rest = [] \<or> (continues r \<and> chained url (cursor_of r) rest)))"

definition REDDIT_POSTS_URL :: string where
  "REDDIT_POSTS_URL = ''https://www.reddit.com/r/all/new.json?limit=100''"

definition REDDIT_COMMENTS_URL :: string where
  "REDDIT_COMMENTS_URL = ''https://www.reddit.com/r/all/comments.json?limit=100''"

text \<open>Fetcher stubs; their network state is the number of requests made so far.\<close>

definition stub_item :: "string \<Rightarrow> raw_item" where
  "stub_item i = \<lparr> item_id = Some i, title = Some ''We are hiring'', selftext = Some [],
     body = None, link_title = None, subreddit = Some ''jobs'',
     permalink = Some (''/r/jobs/comments/'' @ i), created_utc = Some 1700000000 \<rparr>"

definition stub_empty_from_3 :: "nat fetcher" where
  "stub_empty_from_3 u n =
     (if n = 0 then (Page [stub_item ''a1'', stub_item ''a2''] (Some ''t3_a2''), 1)
      else if n = 1 then (Page [stub_item ''a3''] (Some ''t3_a3''), 2)
      else (Page [] (Some ''t3_a3''), Suc n))"

definition stub_fails_on_2 :: "nat fetcher" where
  "stub_fails_on_2 u n =
     (if n = 0 then (Page [stub_item ''a1'', stub_item ''a2''] (Some ''t3_a2''), 1)
      else if n = 1 then (Failed, 2)
      else (Page [stub_item ''a9''] (Some ''t3_a9''), Suc n))"

subsection \<open>Strings\<close>

text \<open>
  \<^verbatim>\<open>str.lower()\<close> on the code points 0..255: the upper-case letters are A..Z and the
  Latin-1 letters 192..222 without the multiplication sign 215; each moves up by 32.
\<close>

definition lower_char :: "char \<Rightarrow> char" where
  "lower_char c =
     (let n = (of_char c :: nat)
      in if (65 \<le> n \<and> n \<le> 90) \<or> (192 \<le> n \<and> n \<le> 222 \<and> n \<noteq> 215)
         then char_of (n + 32) else c)"

definition lower :: "string \<Rightarrow> string" where
  "lower s = map lower_char s"

text \<open>\<^verbatim>\<open>k in s\<close> for two strings: \<open>k\<close> occurs in \<open>s\<close> as a contiguous piece.\<close>

fun str_in :: "string \<Rightarrow> string \<Rightarrow> bool" where
  "str_in k [] = (k = [])"
| "str_in k (c # cs) = (prefix k (c # cs) \<or> str_in k cs)"

text \<open>\<^verbatim>\<open>sep.join(xs)\<close> for a list of strings.\<close>

fun join :: "string \<Rightarrow> string list \<Rightarrow> string" where
  "join sep [] = []"
| "join sep [x] = x"
| "join sep (x # y # ys) = x @ sep @ join sep (y # ys)"

subsection \<open>Dates\<close>

text \<open>
  \<^verbatim>\<open>datetime.fromtimestamp(t).strftime('%Y-%m-%d %H:%M:%S')\<close>, from the documentation of
  the \<^verbatim>\<open>datetime\<close> module. The timestamp is a whole number of seconds since the epoch.
  The local time zone is the function \<open>utcoffset\<close>: the seconds east of UTC in force at
  an instant. \<open>civil_from_days\<close> turns the day number (days since 1970-01-01) into year,
  month and day of the proleptic Gregorian calendar: it counts from 1 March of year 0, in
  eras of 400 years (\<open>day_of_era\<close>), then centuries, four-year cycles and years
  (\<open>year_of_era\<close>, \<open>day_of_year\<close>), and reads month and day off the day of the year that
  begins in March (\<open>month_of\<close>, \<open>day_of\<close>). \<^verbatim>\<open>fromtimestamp\<close> raises
  outside the years 1..9999. \<^verbatim>\<open>%Y\<close> is the year in four digits, the other fields are
  two digits, all zero-padded.
\<close>

record datetime =
  year :: int
  month :: int
  day :: int
  hour :: int
  minute :: int
  second :: int

definition day_of_era :: "int \<Rightarrow> int" where
  "day_of_era z0 = (z0 + 719468) mod 146097"

definition year_of_era :: "int \<Rightarrow> int" where
  "year_of_era doe =
     (let c = min 3 (doe div 36524);
          r1 = doe - c * 36524;
          a = min 3 (r1 mod 1461 div 365)
      in c * 100 + (r1 div 1461) * 4 + a)"

definition day_of_year :: "int \<Rightarrow> int" where
  "day_of_year doe =
     (let c = min 3 (doe div 36524);
          r1 = doe - c * 36524;
          a = min 3 (r1 mod 1461 div 365)
      in r1 mod 1461 - a * 365)"

definition month_of :: "int \<Rightarrow> int" where
  "month_of doy = (let mp = (5 * doy + 2) div 153 in if mp < 10 then mp + 3 else mp - 9)"

definition day_of :: "int \<Rightarrow> int" where
  "day_of doy = (let mp = (5 * doy + 2) div 153 in doy - (153 * mp + 2) div 5 + 1)"

definition civil_from_days :: "int \<Rightarrow> int \<times> int \<times> int" where
  "civil_from_days z0 =
     (let doe = day_of_era z0;
          doy = day_of_year doe;
          m = month_of doy;
          y = ((z0 + 719468) div 146097) * 400 + year_of_era doe + (if m \<le> 2 then 1 else 0)
      in (y, m, day_of doy))"

definition fromtimestamp :: "(int \<Rightarrow> int) \<Rightarrow> int \<Rightarrow> error + datetime" where
  "fromtimestamp utcoffset t =
     (let local = t + utcoffset t;
          secs = local mod 86400
      in case civil_from_days (local div 86400) of
           (y, m, d) \<Rightarrow>
             if y < 1 \<or> 9999 < y then Inl TimestampOutOfRange
             else Inr \<lparr> year = y, month = m, day = d, hour = secs div 3600,
                        minute = secs mod 3600 div 60, second = secs mod 60 \<rparr>)"

definition digit :: "int \<Rightarrow> char" where
  "digit n = ''0123456789'' ! nat n"

definition pad2 :: "int \<Rightarrow> string" where
  "pad2 n = [digit (n div 10), digit (n mod 10)]"

definition pad4 :: "int \<Rightarrow> string" where
  "pad4 n = [digit (n div 1000), digit (n div 100 mod 10), digit (n div 10 mod 10), digit (n mod 10)]"

definition strftime :: "datetime \<Rightarrow> string" where
  "strftime dt =
     pad4 (year dt) @ ''-'' @ pad2 (month dt) @ ''-'' @ pad2 (day dt) @ '' ''
       @ pad2 (hour dt) @ '':'' @ pad2 (minute dt) @ '':'' @ pad2 (second dt)"



subsection \<open>Processing the items of one kind\<close>

text \<open>
  One entry of \<^verbatim>\<open>matches\<close>: the dictionary with the keys \<^verbatim>\<open>keywords\<close>, \<^verbatim>\<open>title\<close>, \<^verbatim>\<open>url\<close>,
  \<^verbatim>\<open>subreddit\<close>, \<^verbatim>\<open>created\<close> and \<^verbatim>\<open>type\<close>, each field named \<open>match_\<close> and the key.
\<close>

record match =
  match_keywords :: string
  match_title :: string
  match_url :: string
  match_subreddit :: string
  match_created :: string
  match_type :: string

text \<open>What the run takes from its surroundings.\<close>

record 'n env =
  KEYWORDS :: "string list"                 \<comment> \<open>the global read from \<^verbatim>\<open>keywords.json\<close>\<close>
  str_iter :: "string set \<Rightarrow> string list"  \<comment> \<open>iteration order of a set of strings\<close>
  id_iter :: "ident set \<Rightarrow> ident list"      \<comment> \<open>iteration order of a set of identifiers\<close>
  utcoffset :: "int \<Rightarrow> int"                 \<comment> \<open>the local time zone\<close>
  requests_get :: "'n fetcher"               \<comment> \<open>\<^verbatim>\<open>requests.get\<close> up to the decoded page\<close>
  resend_send :: "match list \<Rightarrow> bool"
    \<comment> \<open>whether \<^verbatim>\<open>resend.Emails.send\<close> returns (\<open>True\<close>) or raises, for the message of these matches\<close>

text \<open>
  The body of the loop of \<^verbatim>\<open>process_items\<close>, for an item that has not been seen:
  \<^verbatim>\<open>
  title = item_data.get("title", "")
  body = item_data.get("selftext", "") if item_type == "post" else item_data.get("body", "")
  subreddit = item_data.get("subreddit", "unknown")
  permalink = item_data.get("permalink", "")
  created = datetime.fromtimestamp(item_data.get("created_utc", 0)).strftime('%Y-%m-%d %H:%M:%S')
  if item_type == "comment":
      title = item_data.get("link_title", f"Comment: {body[:50]}...")
  content = f"{title} {body}".lower()
  matched_keywords = set()
  for keyword in KEYWORDS:
      if keyword.lower() in content:
          matched_keywords.add(keyword)
  if matched_keywords:
      matches.append({
          "keywords": ", ".join(matched_keywords),
          "title": title,
          "url": "https://reddit.com" + permalink,
          "subreddit": subreddit,
          "created": created,
          "type": item_type
      })
  \<close>
\<close>

definition get_or :: "'a option \<Rightarrow> 'a \<Rightarrow> 'a" where
  "get_or v d = (case v of None \<Rightarrow> d | Some x \<Rightarrow> x)"

definition body_of :: "string \<Rightarrow> raw_item \<Rightarrow> string" where
  "body_of item_type item_data =
     (if item_type = ''post'' then get_or (selftext item_data) []
      else get_or (body item_data) [])"

definition title_of :: "string \<Rightarrow> raw_item \<Rightarrow> string" where
  "title_of item_type item_data =
     (if item_type = ''comment''
      then get_or (link_title item_data)
             (''Comment: '' @ take 50 (body_of item_type item_data) @ ''...'')
      else get_or (title item_data) [])"

definition content_of :: "string \<Rightarrow> raw_item \<Rightarrow> string" where
  "content_of item_type item_data =
     lower (title_of item_type item_data @ '' '' @ body_of item_type item_data)"

definition matched_keywords :: "string list \<Rightarrow> string \<Rightarrow> string set" where
  "matched_keywords kws content =
     fold (\<lambda>keyword acc. if str_in (lower keyword) content then insert keyword acc else acc)
       kws {}"

definition match_item :: "'n env \<Rightarrow> string \<Rightarrow> raw_item \<Rightarrow> error + match option" where
  "match_item E item_type item_data =
     (case fromtimestamp (utcoffset E) (get_or (created_utc item_data) 0) of
        Inl e \<Rightarrow> Inl e
      | Inr dt \<Rightarrow>
          (let matched = matched_keywords (KEYWORDS E) (content_of item_type item_data)
           in if matched \<noteq> {}
              then Inr (Some \<lparr> match_keywords = join '', '' (str_iter E matched),
                     match_title = title_of item_type item_data,
                     match_url = ''https://reddit.com'' @ get_or (permalink item_data) [],
                     match_subreddit = get_or (subreddit item_data) ''unknown'',
                     match_created = strftime dt,
                     match_type = item_type \<rparr>)
              else Inr None))"

text \<open>
  \<^verbatim>\<open>
  def process_items(items, seen_items, item_type="post"):
      matches = []
      new_items_checked = 0
      for item in items:
          item_data = item["data"]
          item_id = item_data.get("id")
          if item_id in seen_items:
              continue
          new_items_checked += 1
          ...                         # the body above
          seen_items.add(item_id)
      return matches, new_items_checked
  \<close>
  \<open>process_item\<close> is one pass through the loop and \<open>process_loop\<close> the \<^verbatim>\<open>for\<close> loop over
  the items left, on the three variables the loop changes. The set \<^verbatim>\<open>seen_items\<close> is
  changed in place, so the model returns it with the result. An exception (the
  timestamp) leaves the function, and nothing in the cycle catches it.
\<close>

definition process_item ::
  "'n env \<Rightarrow> string \<Rightarrow> raw_item \<Rightarrow> match list \<times> nat \<times> ident set
     \<Rightarrow> error + match list \<times> nat \<times> ident set" where
  "process_item E item_type item_data st =
     (case st of (matches, new_items_checked, seen_items) \<Rightarrow>
        (if item_id item_data \<in> seen_items then Inr st
         else (case match_item E item_type item_data of
                 Inl e \<Rightarrow> Inl e
               | Inr None \<Rightarrow>
                   Inr (matches, new_items_checked + 1,
                        insert (item_id item_data) seen_items)
               | Inr (Some m) \<Rightarrow>
                   Inr (matches @ [m], new_items_checked + 1,
                        insert (item_id item_data) seen_items))))"

fun process_loop ::
  "'n env \<Rightarrow> string \<Rightarrow> raw_item list \<Rightarrow> match list \<times> nat \<times> ident set
     \<Rightarrow> error + match list \<times> nat \<times> ident set" where
  "process_loop E item_type [] st = Inr st"
| "process_loop E item_type (item_data # items) st =
     (case process_item E item_type item_data st of
        Inl e \<Rightarrow> Inl e
      | Inr st' \<Rightarrow> process_loop E item_type items st')"

definition process_items ::
  "'n env \<Rightarrow> raw_item list \<Rightarrow> ident set \<Rightarrow> string
     \<Rightarrow> error + match list \<times> nat \<times> ident set" where
  "process_items E items seen_items item_type =
     process_loop E item_type items ([], 0, seen_items)"

text \<open>
  To speak about one call of \<^verbatim>\<open>process_items\<close>: \<open>new_items seen items\<close> are the items the
  loop does not skip, in order (an item is skipped when its identifier is in the seen set
  as it stands when the loop reaches the item); \<open>tagged_records\<close> pairs each record that a
  list of items yields with the identifier of its item.
\<close>

fun new_items :: "ident set \<Rightarrow> raw_item list \<Rightarrow> raw_item list" where
  "new_items seen [] = []"
| "new_items seen (x # xs) =
     (if item_id x \<in> seen then new_items seen xs
      else x # new_items (insert (item_id x) seen) xs)"

definition tagged_record :: "'n env \<Rightarrow> string \<Rightarrow> raw_item \<Rightarrow> (ident \<times> match) list" where
  "tagged_record E item_type x =
     (case match_item E item_type x of Inr (Some m) \<Rightarrow> [(item_id x, m)] | _ \<Rightarrow> [])"

definition tagged_records :: "'n env \<Rightarrow> string \<Rightarrow> raw_item list \<Rightarrow> (ident \<times> match) list" where
  "tagged_records E item_type xs = concat (map (tagged_record E item_type) xs)"

text \<open>Items and runs for the examples.\<close>

definition example_post :: "string \<Rightarrow> string \<Rightarrow> string \<Rightarrow> raw_item" where
  "example_post i t b = \<lparr> item_id = Some i, title = Some t, selftext = Some b,
     body = None, link_title = None, subreddit = Some ''startups'',
     permalink = Some (''/r/startups/comments/'' @ i), created_utc = Some 1709164800 \<rparr>"


definition run_sorted :: "nat env" where
  "run_sorted = \<lparr> KEYWORDS = [''hiring'', ''Launch''], str_iter = sorted_list_of_set,
     id_iter = sorted_list_of_set, utcoffset = (\<lambda>t. 3600), requests_get = stub_empty_from_3,
     resend_send = (\<lambda>matches. True) \<rparr>"

definition run_reversed :: "nat env" where
  "run_reversed = run_sorted \<lparr> str_iter := (\<lambda>s. rev (sorted_list_of_set s)) \<rparr>"

subsection \<open>The cycle\<close>

text \<open>
  The world a cycle acts on: the files, the network, and what leaves the process.
  \<open>sent\<close> lists the calls of \<^verbatim>\<open>resend.Emails.send\<close>, each standing for its message by the
  matches the message is built from (the subject and the HTML are functions of them).
  \<open>console\<close> keeps the three lines that report the outcome of the notification; the
  other \<^verbatim>\<open>print\<close> calls are left out. \<open>dispatches\<close> lists the calls of \<^verbatim>\<open>send_email\<close> with
  their argument; it is there to speak about them and nothing reads it.
\<close>

datatype notice =
    EmailSent nat    \<comment> \<open>\<^verbatim>\<open>Email sent successfully with n match(es)!\<close>\<close>
  | EmailError       \<comment> \<open>\<^verbatim>\<open>Error sending email: ...\<close>\<close>
  | NoMatches        \<comment> \<open>\<^verbatim>\<open>No keyword matches found.\<close>\<close>

record 'n world =
  files :: files
  network :: 'n
  sent :: "match list list"
  console :: "notice list"
  dispatches :: "match list list"








section \<open>Properties of the seen-item store\<close>

lemma load_after_save:
  "load_seen_items (save_seen_items iter s f fs) f =
     Inr (set (if length (iter s) > 5000
               then drop (length (iter s) - 5000) (iter s) else iter s))"
  by (simp add: load_seen_items_def save_seen_items_def Let_def)




text \<open>
  C10: a seen set of at most 5000 identifiers comes back unchanged from a save followed
  by a load, whatever the order in which the set is iterated.
\<close>

theorem save_load_roundtrip:
  assumes "set (iter s) = s" and "distinct (iter s)" and "card s \<le> 5000"
  shows "load_seen_items (save_seen_items iter s f fs) f = Inr s"
proof -
  have "length (iter s) = card s"
    using assms(1,2) distinct_card by fastforce
  with assms(3) have "\<not> length (iter s) > 5000" by simp
  then show ?thesis
    using assms(1) by (simp add: load_after_save)
qed

theorem save_load_roundtrip_witness:
  "set (sorted_list_of_set {Some ''p1'', None, Some ''p2''}) = {Some ''p1'', None, Some ''p2''}
   \<and> distinct (sorted_list_of_set {Some ''p1'', None, Some ''p2''})
   \<and> card {Some ''p1'', None, Some ''p2''} \<le> 5000
   \<and> load_seen_items
        (save_seen_items sorted_list_of_set {Some ''p1'', None, Some ''p2''}
           SEEN_POSTS_FILE Map.empty) SEEN_POSTS_FILE
      = Inr {Some ''p1'', None, Some ''p2''}"
proof -
  have a: "set (sorted_list_of_set {Some ''p1'', None, Some ''p2''})
             = {Some ''p1'', None, Some ''p2''}"
    by (simp add: insert_commute)
  have b: "distinct (sorted_list_of_set {Some ''p1'', None, Some ''p2''})"
    by simp
  have c: "card {Some ''p1'', None, Some ''p2''} \<le> 5000"
    by simp
  from save_load_roundtrip
         [of sorted_list_of_set "{Some ''p1'', None, Some ''p2''}", OF a b c] a b c
  show ?thesis
    by blast
qed

lemma add_all_set: "add_all ids s = set ids \<union> s"
  unfolding add_all_def by (induction ids arbitrary: s) auto

lemma length_fresh_ids: "length (fresh_ids n) = n"
  by (simp add: fresh_ids_def)

lemma distinct_fresh_ids: "distinct (fresh_ids n)"
  by (simp add: fresh_ids_def distinct_map inj_on_def)

lemma take_fresh_ids: "m \<le> n \<Longrightarrow> take m (fresh_ids n) = fresh_ids m"
  by (simp add: fresh_ids_def take_map)

lemma fresh_ids_nth: "k < n \<Longrightarrow> fresh_ids n ! k = Some (replicate (Suc k) (CHR ''a''))"
  by (simp add: fresh_ids_def del: replicate.simps)

lemma newest_not_in_older:
  assumes "m < n"
  shows "last (fresh_ids n) \<notin> set (fresh_ids m)"
proof -
  have "last (fresh_ids n) = fresh_ids n ! (n - 1)"
    using assms by (simp add: last_conv_nth length_fresh_ids fresh_ids_def)
  also have "\<dots> = Some (replicate (Suc (n - 1)) (CHR ''a''))"
    using assms by (intro fresh_ids_nth) simp
  finally show ?thesis
    using assms by (auto simp: fresh_ids_def simp del: replicate.simps)
qed

lemma newest_in_tail:
  assumes "k < n"
  shows "last (fresh_ids n) \<in> set (drop k (fresh_ids n))"
proof -
  have "drop k (fresh_ids n) \<noteq> []"
    using assms by (simp add: length_fresh_ids)
  then have "last (drop k (fresh_ids n)) \<in> set (drop k (fresh_ids n))"
    by (rule last_in_set)
  then show ?thesis
    using assms by (simp add: length_fresh_ids)
qed

lemma saved_size_bound:
  "save_seen_items iter s f fs f = Some (IdArray xs) \<Longrightarrow> length xs \<le> 5000"
  by (auto simp: save_seen_items_def Let_def split: if_splits)

text \<open>
  C1 at an input where the code departs from it. The claim: saving a set of 7000
  identifiers added in a known order persists the last 5000 added. The code slices
  \<^verbatim>\<open>list(seen_items)\<close>, the iteration order of a \<^verbatim>\<open>set\<close>, which is not the insertion
  order. With the 7000 identifiers of \<open>known_ids\<close> added in that order and the set iterated
  in the reverse order, the file holds exactly the 5000 identifiers added first; the
  identifier added last is lost, and a load gives the oldest 5000, not the newest.
  The size bound alone does hold (\<open>saved_size_bound\<close>).
\<close>

theorem save_keeps_oldest_under_reversed_iteration:
  "length known_ids = 7000 \<and> distinct known_ids
   \<and> set (reversed_iter (add_all known_ids {})) = add_all known_ids {}
   \<and> distinct (reversed_iter (add_all known_ids {}))
   \<and> save_seen_items reversed_iter (add_all known_ids {}) SEEN_POSTS_FILE Map.empty
        SEEN_POSTS_FILE = Some (IdArray (rev (take 5000 known_ids)))
   \<and> load_seen_items
        (save_seen_items reversed_iter (add_all known_ids {}) SEEN_POSTS_FILE Map.empty)
        SEEN_POSTS_FILE = Inr (set (take 5000 known_ids))
   \<and> set (take 5000 known_ids) \<noteq> set (drop 2000 known_ids)
   \<and> last known_ids \<notin> set (take 5000 known_ids)"
proof -
  have len: "length known_ids = 7000"
    by (simp add: known_ids_def length_fresh_ids)
  have dist: "distinct known_ids"
    by (simp add: known_ids_def distinct_fresh_ids)
  have saved: "save_seen_items reversed_iter (add_all known_ids {}) SEEN_POSTS_FILE Map.empty
        SEEN_POSTS_FILE = Some (IdArray (rev (take 5000 known_ids)))"
    by (simp add: save_seen_items_def reversed_iter_def len drop_rev)
  have loaded: "load_seen_items
        (save_seen_items reversed_iter (add_all known_ids {}) SEEN_POSTS_FILE Map.empty)
        SEEN_POSTS_FILE = Inr (set (take 5000 known_ids))"
    using saved by (simp add: load_seen_items_def)
  have gone: "last known_ids \<notin> set (take 5000 known_ids)"
    unfolding known_ids_def by (simp add: take_fresh_ids newest_not_in_older)
  have kept: "last known_ids \<in> set (drop 2000 known_ids)"
    unfolding known_ids_def by (rule newest_in_tail) simp
  from gone kept have differ: "set (take 5000 known_ids) \<noteq> set (drop 2000 known_ids)"
    by blast
  show ?thesis
    using saved loaded gone differ len dist
    by (simp add: reversed_iter_def add_all_set)
qed

section \<open>Properties of the paginated collector\<close>

lemma logged_apply:
  "logged get url (net, log) =
     (case get url net of (r, net') \<Rightarrow> (r, (net', log @ [(url, r)])))"
  unfolding logged_def by simp

lemma batches_logged:
  "batches (logged get) url k acc after (net, log0) = (items, (net', log)) \<Longrightarrow>
     \<exists>new. log = log0 @ new \<and> length new \<le> k \<and> chained url after new
       \<and> items = acc @ concat (map (\<lambda>c. items_of (snd c)) new)
       \<and> (length new < k \<longrightarrow> new \<noteq> [] \<and> \<not> continues (snd (last new)))
       \<and> batches get url k acc after net = (items, net')"
proof (induction k arbitrary: acc after net log0)
  case 0
  then show ?case by simp
next
  case (Suc k)
  obtain r n1 where g: "get (batch_url url after) net = (r, n1)"
    by (cases "get (batch_url url after) net")
  show ?case
  proof (cases "continues r")
    case False
    then have "items = acc @ items_of r \<and> net' = n1 \<and> log = log0 @ [(batch_url url after, r)]"
      using Suc.prems g
      by (auto simp: logged_apply continues_def split: page_result.splits if_splits)
    moreover have "batches get url (Suc k) acc after net = (acc @ items_of r, n1)"
      using False g by (auto simp: continues_def split: page_result.splits)
    ultimately show ?thesis
      using False by (intro exI [of _ "[(batch_url url after, r)]"]) simp
  next
    case True
    then obtain its a where r: "r = Page its a" "truthy a" "its \<noteq> []"
      by (auto simp: continues_def split: page_result.splits)
    have "batches (logged get) url k (acc @ its) a (n1, log0 @ [(batch_url url after, r)])
            = (items, (net', log))"
      using Suc.prems g r by (simp add: logged_apply)
    from Suc.IH [OF this] obtain new where new:
      "log = (log0 @ [(batch_url url after, r)]) @ new" "length new \<le> k"
      "chained url a new" "items = (acc @ its) @ concat (map (\<lambda>c. items_of (snd c)) new)"
      "length new < k \<longrightarrow> new \<noteq> [] \<and> \<not> continues (snd (last new))"
      "batches get url k (acc @ its) a net1 = (items, net')" if "net1 = n1" for net1
      by blast
    have "batches get url (Suc k) acc after net = (items, net')"
      using g r new(6) by simp
    then show ?thesis
      using new(1-5) r True
      by (intro exI [of _ "(batch_url url after, r) # new"]) auto
  qed
qed


lemma not_continues_iff:
  "\<not> continues r \<longleftrightarrow>
     r = Failed \<or> (\<exists>items a. r = Page items a \<and> (items = [] \<or> a = None \<or> a = Some []))"
  by (auto simp: continues_def truthy_def split: page_result.splits option.splits)

lemma continues_iff:
  "continues r \<longleftrightarrow> (\<exists>items a. r = Page items (Some a) \<and> a \<noteq> [] \<and> items \<noteq> [])"
  by (auto simp: continues_def truthy_def split: page_result.splits option.splits)

lemma chained_first:
  "chained url after log \<Longrightarrow> log \<noteq> [] \<Longrightarrow> fst (log ! 0) = batch_url url after"
  by (cases log) auto

lemma chained_step:
  "chained url after log \<Longrightarrow> Suc i < length log \<Longrightarrow>
     continues (snd (log ! i))
     \<and> fst (log ! Suc i) = batch_url url (cursor_of (snd (log ! i)))"
proof (induction log arbitrary: i after)
  case Nil
  then show ?case by simp
next
  case (Cons c rest)
  obtain u r where c: "c = (u, r)" by (cases c)
  from Cons.prems have rest: "rest \<noteq> []" by auto
  with Cons.prems c have cr: "continues r" "chained url (cursor_of r) rest" by auto
  show ?case
  proof (cases i)
    case 0
    then show ?thesis
      using cr rest c chained_first [OF cr(2) rest] by simp
  next
    case (Suc j)
    then show ?thesis
      using Cons.IH [OF cr(2), of j] Cons.prems(2) by simp
  qed
qed

lemma chained_stop_is_last:
  "chained url after log \<Longrightarrow> i < length log \<Longrightarrow> \<not> continues (snd (log ! i))
     \<Longrightarrow> Suc i = length log"
  using chained_step [of url after log i] by (cases "Suc i < length log") auto

lemma fetch_logged:
  obtains log where
    "fetch_multiple_batches (logged get) url N (net, []) =
       (fst (fetch_multiple_batches get url N net),
        (snd (fetch_multiple_batches get url N net), log))"
    "fetch_calls get url N net = log"
    "length log \<le> nat N" "chained url None log"
    "fst (fetch_multiple_batches get url N net) = concat (map (\<lambda>c. items_of (snd c)) log)"
    "length log < nat N \<longrightarrow> log \<noteq> [] \<and> \<not> continues (snd (last log))"
proof -
  obtain items net' log where r:
    "batches (logged get) url (nat N) [] None (net, []) = (items, (net', log))"
    by (metis surj_pair)
  from batches_logged [OF r] have
    "length log \<le> nat N" "chained url None log"
    "items = concat (map (\<lambda>c. items_of (snd c)) log)"
    "length log < nat N \<longrightarrow> log \<noteq> [] \<and> \<not> continues (snd (last log))"
    "batches get url (nat N) [] None net = (items, net')"
    by auto
  with r that [of log] show thesis
    by (simp add: fetch_multiple_batches_def fetch_calls_def)
qed

text \<open>
  C3: for every fetcher, feed URL and maximum page count \<open>N\<close>, the collector makes at most
  \<open>N\<close> requests; the first request is the feed URL itself and every later request is the
  feed URL with the cursor that the request before it returned; a request whose result is
  a failure, an empty item list or no cursor (\<^verbatim>\<open>None\<close> or the empty string) is the last one,
  and the collector stops before \<open>N\<close> requests only after such a result; with \<open>N = 0\<close> it
  makes no request. The stub whose pages are empty from page 3 on is the witness: three
  requests with a maximum of 10.
\<close>

theorem collector_calls:
  "length (fetch_calls get url N net) \<le> nat N
   \<and> (fetch_calls get url N net \<noteq> [] \<longrightarrow> fst (fetch_calls get url N net ! 0) = url)
   \<and> (\<forall>i. Suc i < length (fetch_calls get url N net) \<longrightarrow>
         (\<exists>items a. snd (fetch_calls get url N net ! i) = Page items (Some a)
            \<and> a \<noteq> [] \<and> items \<noteq> []
            \<and> fst (fetch_calls get url N net ! Suc i) = url @ ''&after='' @ a))
   \<and> (\<forall>i < length (fetch_calls get url N net).
         (snd (fetch_calls get url N net ! i) = Failed
          \<or> (\<exists>items a. snd (fetch_calls get url N net ! i) = Page items a
                \<and> (items = [] \<or> a = None \<or> a = Some [])))
         \<longrightarrow> Suc i = length (fetch_calls get url N net))
   \<and> (length (fetch_calls get url N net) < nat N \<longrightarrow>
         fetch_calls get url N net \<noteq> []
         \<and> \<not> continues (snd (last (fetch_calls get url N net))))
   \<and> fetch_calls get url 0 net = []"
proof -
  obtain log where log: "fetch_calls get url N net = log" "length log \<le> nat N"
    "chained url None log"
    "length log < nat N \<longrightarrow> log \<noteq> [] \<and> \<not> continues (snd (last log))"
    by (rule fetch_logged [of get url N net]) blast
  have first: "log \<noteq> [] \<longrightarrow> fst (log ! 0) = url"
    using chained_first [OF log(3)] by (simp add: batch_url_def)
  have step: "\<exists>items a. snd (log ! i) = Page items (Some a) \<and> a \<noteq> [] \<and> items \<noteq> []
      \<and> fst (log ! Suc i) = url @ ''&after='' @ a" if "Suc i < length log" for i
  proof -
    from chained_step [OF log(3) that] obtain items a where
      "snd (log ! i) = Page items (Some a)" "a \<noteq> []" "items \<noteq> []"
      "fst (log ! Suc i) = batch_url url (cursor_of (snd (log ! i)))"
      by (auto simp: continues_iff)
    then show ?thesis by (simp add: batch_url_def)
  qed
  have stop: "Suc i = length log" if "i < length log"
    "snd (log ! i) = Failed
      \<or> (\<exists>items a. snd (log ! i) = Page items a \<and> (items = [] \<or> a = None \<or> a = Some []))"
    for i
    using chained_stop_is_last [OF log(3) that(1)] that(2) not_continues_iff by blast
  have zero: "fetch_calls get url 0 net = []"
    by (simp add: fetch_calls_def fetch_multiple_batches_def)
  show ?thesis
    unfolding log(1) using log(2,4) first step stop zero by blast
qed

lemma fetch_calls_is_trace:
  "fetch_multiple_batches (logged get) url N (net, []) =
     (fst (fetch_multiple_batches get url N net),
      (snd (fetch_multiple_batches get url N net), fetch_calls get url N net))"
  by (rule fetch_logged [of get url N net]) simp

theorem collector_calls_witness:
  "fetch_calls stub_empty_from_3 REDDIT_POSTS_URL 10 0 =
     [(REDDIT_POSTS_URL, Page [stub_item ''a1'', stub_item ''a2''] (Some ''t3_a2'')),
      (REDDIT_POSTS_URL @ ''&after=t3_a2'', Page [stub_item ''a3''] (Some ''t3_a3'')),
      (REDDIT_POSTS_URL @ ''&after=t3_a3'', Page [] (Some ''t3_a3''))]
   \<and> length (fetch_calls stub_empty_from_3 REDDIT_POSTS_URL 10 0) = 3
   \<and> fetch_calls stub_empty_from_3 REDDIT_POSTS_URL 0 0 = []"
proof -
  have e: "fetch_calls stub_empty_from_3 REDDIT_POSTS_URL 10 0 =
     [(REDDIT_POSTS_URL, Page [stub_item ''a1'', stub_item ''a2''] (Some ''t3_a2'')),
      (REDDIT_POSTS_URL @ ''&after=t3_a2'', Page [stub_item ''a3''] (Some ''t3_a3'')),
      (REDDIT_POSTS_URL @ ''&after=t3_a3'', Page [] (Some ''t3_a3''))]"
    by (simp add: fetch_calls_def fetch_multiple_batches_def logged_apply
        stub_empty_from_3_def batch_url_def truthy_def eval_nat_numeral)
  have t: "length (fetch_calls stub_empty_from_3 REDDIT_POSTS_URL 10 0) \<le> nat 10
      \<and> fetch_calls stub_empty_from_3 REDDIT_POSTS_URL 0 0 = []"
    using collector_calls [of stub_empty_from_3 REDDIT_POSTS_URL 10 0] by blast
  show ?thesis
    unfolding e using t by simp
qed

text \<open>
  C4: the collector returns the items of the pages it received, concatenated in the order
  of the requests. When its request number \<open>k + 1\<close> fails, that request is the last, all
  \<open>k\<close> requests before it returned pages, and the result is exactly the items of those
  \<open>k\<close> pages in feed order. The result is a plain list: no error reaches the caller.
\<close>

theorem collector_partial_results:
  "fst (fetch_multiple_batches get url N net) =
     concat (map (\<lambda>c. items_of (snd c)) (fetch_calls get url N net))
   \<and> (\<forall>k < length (fetch_calls get url N net).
         snd (fetch_calls get url N net ! k) = Failed \<longrightarrow>
           Suc k = length (fetch_calls get url N net)
           \<and> (\<forall>j < k. \<exists>items a. snd (fetch_calls get url N net ! j) = Page items (Some a)
                  \<and> items \<noteq> [] \<and> a \<noteq> [])
           \<and> fst (fetch_multiple_batches get url N net) =
               concat (map (\<lambda>c. items_of (snd c)) (take k (fetch_calls get url N net))))"
proof -
  obtain log where log: "fetch_calls get url N net = log" "chained url None log"
    "fst (fetch_multiple_batches get url N net) = concat (map (\<lambda>c. items_of (snd c)) log)"
    by (rule fetch_logged [of get url N net]) blast
  have "Suc k = length log
      \<and> (\<forall>j < k. \<exists>items a. snd (log ! j) = Page items (Some a) \<and> items \<noteq> [] \<and> a \<noteq> [])
      \<and> concat (map (\<lambda>c. items_of (snd c)) log)
          = concat (map (\<lambda>c. items_of (snd c)) (take k log))"
    if k: "k < length log" and f: "snd (log ! k) = Failed" for k
  proof -
    have last: "Suc k = length log"
      using chained_stop_is_last [OF log(2) k] f by (simp add: continues_def)
    have before: "\<exists>items a. snd (log ! j) = Page items (Some a) \<and> items \<noteq> [] \<and> a \<noteq> []"
      if "j < k" for j
      using chained_step [OF log(2), of j] that last by (auto simp: continues_iff)
    have "take (Suc k) log = take k log @ [log ! k]"
      using k by (simp add: take_Suc_conv_app_nth)
    moreover have "take (Suc k) log = log"
      using last by simp
    ultimately have split: "log = take k log @ [log ! k]"
      by simp
    have "concat (map (\<lambda>c. items_of (snd c)) (take k log @ [log ! k]))
        = concat (map (\<lambda>c. items_of (snd c)) (take k log))"
      using f by simp
    with split have same: "concat (map (\<lambda>c. items_of (snd c)) log)
        = concat (map (\<lambda>c. items_of (snd c)) (take k log))"
      by simp
    from same last before show ?thesis by simp
  qed
  then show ?thesis
    unfolding log(1) using log(3) by simp
qed

theorem collector_partial_results_witness:
  "fetch_calls stub_fails_on_2 REDDIT_COMMENTS_URL 10 0 =
     [(REDDIT_COMMENTS_URL, Page [stub_item ''a1'', stub_item ''a2''] (Some ''t3_a2'')),
      (REDDIT_COMMENTS_URL @ ''&after=t3_a2'', Failed)]
   \<and> fst (fetch_multiple_batches stub_fails_on_2 REDDIT_COMMENTS_URL 10 0)
       = [stub_item ''a1'', stub_item ''a2'']"
proof -
  have e: "fetch_calls stub_fails_on_2 REDDIT_COMMENTS_URL 10 0 =
     [(REDDIT_COMMENTS_URL, Page [stub_item ''a1'', stub_item ''a2''] (Some ''t3_a2'')),
      (REDDIT_COMMENTS_URL @ ''&after=t3_a2'', Failed)]"
    by (simp add: fetch_calls_def fetch_multiple_batches_def logged_apply
        stub_fails_on_2_def batch_url_def truthy_def eval_nat_numeral)
  have t: "fst (fetch_multiple_batches stub_fails_on_2 REDDIT_COMMENTS_URL 10 0) =
     concat (map (\<lambda>c. items_of (snd c)) (fetch_calls stub_fails_on_2 REDDIT_COMMENTS_URL 10 0))"
    using collector_partial_results [of stub_fails_on_2 REDDIT_COMMENTS_URL 10 0] by blast
  show ?thesis
    using t unfolding e by simp
qed

section \<open>Properties of the keyword matcher and the record builder\<close>








text \<open>The calendar model on dates known from elsewhere, leap days and the two ends.\<close>

lemma fromtimestamp_known_dates:
  "map_sum id strftime (fromtimestamp (\<lambda>t. 0) 0) = Inr ''1970-01-01 00:00:00''"
  "map_sum id strftime (fromtimestamp (\<lambda>t. 0) 1700000000) = Inr ''2023-11-14 22:13:20''"
  "map_sum id strftime (fromtimestamp (\<lambda>t. 0) 951782400) = Inr ''2000-02-29 00:00:00''"
  "map_sum id strftime (fromtimestamp (\<lambda>t. 0) 1709251199) = Inr ''2024-02-29 23:59:59''"
  "map_sum id strftime (fromtimestamp (\<lambda>t. 0) 4107542400) = Inr ''2100-03-01 00:00:00''"
  "map_sum id strftime (fromtimestamp (\<lambda>t. 0) (- 1)) = Inr ''1969-12-31 23:59:59''"
  "map_sum id strftime (fromtimestamp (\<lambda>t. - 18000) 1700000000) = Inr ''2023-11-14 17:13:20''"
  "map_sum id strftime (fromtimestamp (\<lambda>t. 0) (- 62135596800)) = Inr ''0001-01-01 00:00:00''"
  "map_sum id strftime (fromtimestamp (\<lambda>t. 0) 253402300799) = Inr ''9999-12-31 23:59:59''"
  "fromtimestamp (\<lambda>t. 0) (- 62135596801) = Inl TimestampOutOfRange"
  "fromtimestamp (\<lambda>t. 0) 253402300800 = Inl TimestampOutOfRange"
  by code_simp+

















lemma process_item_result:
  assumes "process_item E ty x (ms, n, seen) = Inr st"
  shows "st = (if item_id x \<in> seen then (ms, n, seen)
               else (ms @ map snd (tagged_record E ty x), Suc n, insert (item_id x) seen))"
  using assms
  by (auto simp: process_item_def tagged_record_def split: if_splits sum.splits option.splits)

lemma tagged_records_Cons:
  "tagged_records E ty (x # xs) = tagged_record E ty x @ tagged_records E ty xs"
  by (simp add: tagged_records_def)

lemma process_loop_result:
  "process_loop E ty items (ms, n, seen) = Inr (ms', n', seen') \<Longrightarrow>
     ms' = ms @ map snd (tagged_records E ty (new_items seen items))
     \<and> n' = n + length (new_items seen items)
     \<and> seen' = seen \<union> item_id ` set items"
proof (induction items arbitrary: ms n seen)
  case Nil
  then show ?case by (simp add: tagged_records_def)
next
  case (Cons x xs)
  from Cons.prems obtain st where
    st: "process_item E ty x (ms, n, seen) = Inr st"
    and rest: "process_loop E ty xs st = Inr (ms', n', seen')"
    by (auto split: sum.splits)
  show ?case
  proof (cases "item_id x \<in> seen")
    case True
    with process_item_result [OF st] have "st = (ms, n, seen)" by simp
    with rest Cons.IH [of ms n seen] True show ?thesis by auto
  next
    case False
    with process_item_result [OF st]
    have "st = (ms @ map snd (tagged_record E ty x), Suc n, insert (item_id x) seen)"
      by simp
    with rest Cons.IH [of "ms @ map snd (tagged_record E ty x)" "Suc n" "insert (item_id x) seen"]
      False
    show ?thesis by (auto simp: tagged_records_Cons)
  qed
qed

lemma new_items_ids:
  "distinct (map item_id (new_items seen items))
   \<and> item_id ` set (new_items seen items) = item_id ` set items - seen"
proof (induction items arbitrary: seen)
  case Nil
  then show ?case by simp
next
  case (Cons x xs)
  from Cons.IH [of seen] Cons.IH [of "insert (item_id x) seen"] show ?case
    by auto
qed

lemma new_items_subseq: "subseq (new_items seen items) items"
  by (induction items arbitrary: seen) auto

lemma tagged_records_ids:
  "set (map fst (tagged_records E ty xs)) \<subseteq> item_id ` set xs
   \<and> (distinct (map item_id xs) \<longrightarrow> distinct (map fst (tagged_records E ty xs)))"
proof (induction xs)
  case Nil
  then show ?case by (simp add: tagged_records_def)
next
  case (Cons x xs)
  have "tagged_record E ty x = [] \<or> (\<exists>m. tagged_record E ty x = [(item_id x, m)])"
    by (auto simp: tagged_record_def split: sum.splits option.splits)
  with Cons show ?case
    by (auto simp: tagged_records_Cons)
qed

lemma tagged_records_length: "length (tagged_records E ty xs) \<le> length xs"
proof (induction xs)
  case Nil
  then show ?case by (simp add: tagged_records_def)
next
  case (Cons x xs)
  have "length (tagged_record E ty x) \<le> 1"
    by (auto simp: tagged_record_def split: sum.splits option.splits)
  with Cons show ?case by (simp add: tagged_records_Cons)
qed

lemma process_loop_returns:
  assumes "\<forall>x \<in> set items. \<exists>dt.
             fromtimestamp (utcoffset E) (get_or (created_utc x) 0) = Inr dt"
  shows "\<exists>r. process_loop E ty items st = Inr r"
  using assms
proof (induction items arbitrary: st)
  case Nil
  show ?case by (metis process_loop.simps(1))
next
  case (Cons x xs)
  obtain dt where "fromtimestamp (utcoffset E) (get_or (created_utc x) 0) = Inr dt"
    using Cons.prems by auto
  then have "\<exists>r. match_item E ty x = Inr r"
    by (simp add: match_item_def Let_def)
  then obtain r where r: "match_item E ty x = Inr r" by blast
  obtain ms n seen where st: "st = (ms, n, seen)" by (cases st) auto
  have "\<exists>st'. process_item E ty x st = Inr st'"
    unfolding st by (simp add: process_item_def r split: option.splits)
  then obtain st' where "process_item E ty x st = Inr st'" by blast
  with Cons.IH [of st'] Cons.prems show ?case by simp
qed

lemma process_items_returns:
  assumes "\<forall>x \<in> set items. \<exists>dt.
             fromtimestamp (utcoffset E) (get_or (created_utc x) 0) = Inr dt"
  shows "\<exists>r. process_items E items seen ty = Inr r"
  unfolding process_items_def using assms by (rule process_loop_returns)

text \<open>
  C9: in one call of \<^verbatim>\<open>process_items\<close> that returns, the items processed (\<open>new_items\<close>)
  have pairwise different identifiers, even when the input repeats an identifier: the
  identifier enters the seen set as soon as its first item is processed, within the same
  loop. So the count of new items is the number of processed items, which is the number
  of different identifiers of the input that were not seen before; the match records are
  the records of the processed items in order, no two of them from the same identifier,
  and there are at most as many as new items. The call returns whenever the timestamps
  are in range (\<open>process_items_returns\<close>).
\<close>

theorem process_items_once_per_identifier:
  assumes "process_items E items seen ty = Inr (matches, n, seen')"
  shows "matches = map snd (tagged_records E ty (new_items seen items))
    \<and> distinct (map fst (tagged_records E ty (new_items seen items)))
    \<and> n = length (new_items seen items)
    \<and> distinct (map item_id (new_items seen items))
    \<and> n = card (item_id ` set items - seen)
    \<and> length matches \<le> n
    \<and> seen' = seen \<union> item_id ` set items"
proof -
  from assms have loop: "process_loop E ty items ([], 0, seen) = Inr (matches, n, seen')"
    by (simp add: process_items_def)
  from process_loop_result [OF loop] have
    ms: "matches = map snd (tagged_records E ty (new_items seen items))"
    and n: "n = length (new_items seen items)"
    and s: "seen' = seen \<union> item_id ` set items"
    by simp_all
  have d: "distinct (map item_id (new_items seen items))"
    and ids: "item_id ` set (new_items seen items) = item_id ` set items - seen"
    using new_items_ids by blast+
  have "card (item_id ` set items - seen) = card (set (map item_id (new_items seen items)))"
    using ids by simp
  also have "\<dots> = length (new_items seen items)"
    using d distinct_card by fastforce
  finally have c: "n = card (item_id ` set items - seen)"
    using n by simp
  have dt: "distinct (map fst (tagged_records E ty (new_items seen items)))"
    using tagged_records_ids d by blast
  have le: "length matches \<le> n"
    using tagged_records_length [of E ty "new_items seen items"] by (simp add: ms n)
  from ms dt n d c le s show ?thesis by blast
qed

theorem process_items_once_per_identifier_witness:
  "process_items run_sorted
     [example_post ''p1'' ''We are hiring'' [], example_post ''p2'' ''nothing'' ''here'',
      example_post ''p1'' ''We are hiring'' []] {Some ''p0''} ''post''
   = Inr ([\<lparr> match_keywords = ''hiring'', match_title = ''We are hiring'',
             match_url = ''https://reddit.com/r/startups/comments/p1'',
             match_subreddit = ''startups'',
             match_created = ''2024-02-29 01:00:00'', match_type = ''post'' \<rparr>],
          2, {Some ''p2'', Some ''p1'', Some ''p0''})
   \<and> new_items {Some ''p0''}
        [example_post ''p1'' ''We are hiring'' [], example_post ''p2'' ''nothing'' ''here'',
         example_post ''p1'' ''We are hiring'' []]
     = [example_post ''p1'' ''We are hiring'' [], example_post ''p2'' ''nothing'' ''here'']"
proof -
  have e: "process_items run_sorted
     [example_post ''p1'' ''We are hiring'' [], example_post ''p2'' ''nothing'' ''here'',
      example_post ''p1'' ''We are hiring'' []] {Some ''p0''} ''post''
   = Inr ([\<lparr> match_keywords = ''hiring'', match_title = ''We are hiring'',
             match_url = ''https://reddit.com/r/startups/comments/p1'',
             match_subreddit = ''startups'',
             match_created = ''2024-02-29 01:00:00'', match_type = ''post'' \<rparr>],
          2, {Some ''p2'', Some ''p1'', Some ''p0''})"
    by code_simp
  have len: "length (new_items {Some ''p0''}
        [example_post ''p1'' ''We are hiring'' [], example_post ''p2'' ''nothing'' ''here'',
         example_post ''p1'' ''We are hiring'' []]) = 2"
    using process_items_once_per_identifier [OF e] by simp
  have ni: "new_items {Some ''p0''}
        [example_post ''p1'' ''We are hiring'' [], example_post ''p2'' ''nothing'' ''here'',
         example_post ''p1'' ''We are hiring'' []]
     = [example_post ''p1'' ''We are hiring'' [], example_post ''p2'' ''nothing'' ''here'']"
    by (simp add: example_post_def)
  from e len ni show ?thesis by blast
qed

text \<open>
  C7 at an input where the code departs from it. The claim: equal matched-keyword sets
  are rendered to the same keyword string in every run. The code joins the elements of a
  \<^verbatim>\<open>set\<close> in its iteration order, which for strings changes from process to process. The
  post titled \<^verbatim>\<open>Hiring for the launch\<close>, with the keywords \<^verbatim>\<open>hiring\<close> and \<^verbatim>\<open>Launch\<close>, has
  the same matched set in both runs below, which differ only in the iteration order of
  sets of strings; the records read \<^verbatim>\<open>Launch, hiring\<close> in one and \<^verbatim>\<open>hiring, Launch\<close> in the
  other.
\<close>

theorem keyword_order_differs_between_runs:
  "KEYWORDS run_reversed = KEYWORDS run_sorted
   \<and> matched_keywords (KEYWORDS run_sorted)
        (content_of ''post'' (example_post ''p1'' ''Hiring for the launch'' []))
      = {''hiring'', ''Launch''}
   \<and> set (str_iter run_sorted {''hiring'', ''Launch''}) = {''hiring'', ''Launch''}
   \<and> distinct (str_iter run_sorted {''hiring'', ''Launch''})
   \<and> set (str_iter run_reversed {''hiring'', ''Launch''}) = {''hiring'', ''Launch''}
   \<and> distinct (str_iter run_reversed {''hiring'', ''Launch''})
   \<and> match_item run_sorted ''post'' (example_post ''p1'' ''Hiring for the launch'' [])
      = Inr (Some \<lparr> match_keywords = ''Launch, hiring'',
          match_title = ''Hiring for the launch'',
          match_url = ''https://reddit.com/r/startups/comments/p1'',
          match_subreddit = ''startups'',
          match_created = ''2024-02-29 01:00:00'', match_type = ''post'' \<rparr>)
   \<and> match_item run_reversed ''post'' (example_post ''p1'' ''Hiring for the launch'' [])
      = Inr (Some \<lparr> match_keywords = ''hiring, Launch'',
          match_title = ''Hiring for the launch'',
          match_url = ''https://reddit.com/r/startups/comments/p1'',
          match_subreddit = ''startups'',
          match_created = ''2024-02-29 01:00:00'', match_type = ''post'' \<rparr>)"
proof -
  have k: "KEYWORDS run_reversed = KEYWORDS run_sorted"
    by (simp add: run_reversed_def)
  have m: "matched_keywords (KEYWORDS run_sorted)
        (content_of ''post'' (example_post ''p1'' ''Hiring for the launch'' []))
      = {''hiring'', ''Launch''}"
    by code_simp
  have v: "set (str_iter run_sorted {''hiring'', ''Launch''}) = {''hiring'', ''Launch''}"
    "distinct (str_iter run_sorted {''hiring'', ''Launch''})"
    "set (str_iter run_reversed {''hiring'', ''Launch''}) = {''hiring'', ''Launch''}"
    "distinct (str_iter run_reversed {''hiring'', ''Launch''})"
    by (simp_all add: run_sorted_def run_reversed_def insert_commute)
  have a: "match_item run_sorted ''post'' (example_post ''p1'' ''Hiring for the launch'' [])
      = Inr (Some \<lparr> match_keywords = ''Launch, hiring'',
          match_title = ''Hiring for the launch'',
          match_url = ''https://reddit.com/r/startups/comments/p1'',
          match_subreddit = ''startups'',
          match_created = ''2024-02-29 01:00:00'', match_type = ''post'' \<rparr>)"
    by code_simp
  have b: "match_item run_reversed ''post'' (example_post ''p1'' ''Hiring for the launch'' [])
      = Inr (Some \<lparr> match_keywords = ''hiring, Launch'',
          match_title = ''Hiring for the launch'',
          match_url = ''https://reddit.com/r/startups/comments/p1'',
          match_subreddit = ''startups'',
          match_created = ''2024-02-29 01:00:00'', match_type = ''post'' \<rparr>)"
    by code_simp
  from k m v a b show ?thesis by blast
qed

section \<open>Properties of the cycle\<close>






end
